theory Spec2Isabelle
  imports Main
begin

section \<open>Data model\<close>

text \<open>
  The development embeds \<^verbatim>\<open>botbuilder/dialogs/dialog_container.py\<close>: the class
  \<^verbatim>\<open>DialogContainer\<close> with its methods \<^verbatim>\<open>find_dialog\<close>, \<^verbatim>\<open>on_dialog_event\<close>,
  \<^verbatim>\<open>get_internal_version\<close> and \<^verbatim>\<open>check_for_version_change_async\<close>.

  Python exceptions are values of \<open>error\<close>. A raised exception does not undo the
  writes made before it, so every stateful operation returns its result (or error)
  together with the dialog context it leaves behind.
\<close>

datatype error =
    AttributeError
  | Failure string

text \<open>
  A \<^verbatim>\<open>DialogInstance\<close>: which dialog it runs, its opaque state and the fingerprint
  stored when it last ran. Python's \<^verbatim>\<open>None\<close> is \<open>None\<close>.
\<close>

record dialog_instance =
  instance_id :: string
  state :: string
  version :: "string option"

record dialog_event =
  name :: string
  event_value :: string
  bubble :: bool

text \<open>
  The turn context (\<^verbatim>\<open>dialog_context.context\<close>) is seen only through the trace
  activities it has been sent.
\<close>

record turn_context =
  activities :: "string list"

record dialog_context =
  stack :: "dialog_instance list"
  turn :: turn_context

text \<open>
  Modelled from the spec: the property \<^verbatim>\<open>DialogContext.active_dialog\<close>, whose class is
  not part of the embedded file. The stack is ordered outer to inner and the active
  dialog is its top, undefined (\<^verbatim>\<open>None\<close>) when the stack is empty.
\<close>

definition active_dialog :: "dialog_context \<Rightarrow> dialog_instance option" where
  "active_dialog dc = (if stack dc = [] then None else Some (last (stack dc)))"

text \<open>
  The assignment \<^verbatim>\<open>dialog_context.active_dialog.version = v\<close> mutates the instance on
  top of the stack in place. It is only reached after the read of
  \<^verbatim>\<open>active_dialog.version\<close> has succeeded, that is on a non-empty stack.
\<close>

definition set_active_version :: "string option \<Rightarrow> dialog_context \<Rightarrow> dialog_context" where
  "set_active_version v dc =
     dc\<lparr>stack := butlast (stack dc) @ [(last (stack dc))\<lparr>version := v\<rparr>]\<rparr>"

text \<open>The stored fingerprint of the active dialog, when there is an active dialog.\<close>

definition active_version :: "dialog_context \<Rightarrow> string option option" where
  "active_version dc = map_option version (active_dialog dc)"

text \<open>Python truthiness of an optional string: \<^verbatim>\<open>None\<close> and \<^verbatim>\<open>""\<close> are false.\<close>

fun truthy :: "string option \<Rightarrow> bool" where
  "truthy None = False"
| "truthy (Some s) = (s \<noteq> [])"

section \<open>The dialog set\<close>

record dialog =
  dialog_id :: string
  dialog_version :: "string option"

record dialog_set =
  members :: "dialog list"

text \<open>
  Modelled from the spec: \<^verbatim>\<open>DialogSet.find_dialog\<close> (the spec's \<^verbatim>\<open>find(id)\<close>), whose
  class is not part of the embedded file. It returns the dialog registered under the
  id, or the not-found result; it never throws for a simple lookup.
\<close>

definition dialog_set_find_dialog :: "dialog_set \<Rightarrow> string \<Rightarrow> dialog option" where
  "dialog_set_find_dialog ds i = find (\<lambda>d. dialog_id d = i) (members ds)"

text \<open>
  Modelled from the spec: \<^verbatim>\<open>DialogSet.get_internal_version\<close>, which deterministically
  combines the ids and declared versions of all current members, in their order, into
  one token. The combining function (a hash) is the parameter \<open>H\<close>.
\<close>

type_synonym fingerprint = "(string \<times> string option) list \<Rightarrow> string"

definition dialog_set_get_internal_version :: "fingerprint \<Rightarrow> dialog_set \<Rightarrow> string" where
  "dialog_set_get_internal_version H ds =
     H (map (\<lambda>d. (dialog_id d, dialog_version d)) (members ds))"

section \<open>The container\<close>

record dialog_container =
  container_id :: string
  dialogs :: dialog_set

text \<open>
  Modelled from the spec: the constant \<^verbatim>\<open>DialogEvents.version_changed\<close>, the name of the
  version-changed event.
\<close>

definition version_changed :: string where
  "version_changed = ''versionChanged''"

text \<open>
  The collaborators the container calls are parameters of the model. Each may fail,
  and each may change the state it is given:
  \<^item> \<open>base_handler\<close> is \<^verbatim>\<open>Dialog.on_dialog_event\<close>, reached through \<^verbatim>\<open>super()\<close>;
  \<^item> \<open>trace_sink\<close> is \<^verbatim>\<open>TurnContext.send_trace_activity\<close>;
  \<^item> \<open>emitter\<close> is \<^verbatim>\<open>DialogContext.emit_event(name, value, bubble, from_leaf)\<close>.

  The calls the container itself makes to the trace sink and to the emitter are
  recorded, in order, in a log returned beside the result.
\<close>

type_synonym base_handler =
  "dialog_context \<Rightarrow> dialog_event \<Rightarrow> (error + bool) \<times> dialog_context"

type_synonym trace_sink =
  "string \<Rightarrow> turn_context \<Rightarrow> (error + unit) \<times> turn_context"

type_synonym emitter =
  "string \<Rightarrow> string \<Rightarrow> bool \<Rightarrow> bool \<Rightarrow> dialog_context \<Rightarrow> (error + bool) \<times> dialog_context"

datatype call =
    Send_trace_activity string
  | Emit_event string string bool bool

type_synonym 'a outcome = "(error + 'a) \<times> dialog_context \<times> call list"

definition result_of :: "'a outcome \<Rightarrow> error + 'a" where
  "result_of out = fst out"

definition context_of :: "'a outcome \<Rightarrow> dialog_context" where
  "context_of out = fst (snd out)"

definition calls_of :: "'a outcome \<Rightarrow> call list" where
  "calls_of out = snd (snd out)"

text \<open>
  Lines 24 to 26:
  \<^verbatim>\<open>def find_dialog(self, dialog_id): return self.dialogs.find_dialog(dialog_id)\<close>
\<close>

definition find_dialog :: "dialog_container \<Rightarrow> string \<Rightarrow> dialog option" where
  "find_dialog self i = dialog_set_find_dialog (dialogs self) i"

text \<open>
  Lines 28 to 49. The method awaits the base class first and keeps its verdict:
  \<^verbatim>\<open>handled = await super().on_dialog_event(dialog_context, dialog_event)\<close>.
  Under \<^verbatim>\<open>if not handled and dialog_event.name == DialogEvents.version_changed\<close> it
  builds the f-string
  \<^verbatim>\<open>"Unhandled dialog event: {dialog_event.name}. Active Dialog: {dialog_context.active_dialog.id}"\<close>,
  which reads \<^verbatim>\<open>active_dialog.id\<close> and so raises \<^verbatim>\<open>AttributeError\<close> when there is no
  active dialog, then awaits
  \<^verbatim>\<open>dialog_context.context.send_trace_activity(trace_message)\<close>. It ends with
  \<^verbatim>\<open>return handled\<close>. There is no exception handler: a failure of either call
  leaves the method at once.
\<close>

definition trace_message :: "dialog_event \<Rightarrow> dialog_instance \<Rightarrow> string" where
  "trace_message ev inst =
     ''Unhandled dialog event: '' @ name ev @ ''. Active Dialog: '' @ instance_id inst"

definition on_dialog_event ::
  "base_handler \<Rightarrow> trace_sink \<Rightarrow> dialog_context \<Rightarrow> dialog_event \<Rightarrow> bool outcome" where
  "on_dialog_event super send dc ev =
     (case super dc ev of
        (Inl e, dc1) \<Rightarrow> (Inl e, dc1, [])
      | (Inr handled, dc1) \<Rightarrow>
          if \<not> handled \<and> name ev = version_changed then
            (case active_dialog dc1 of
               None \<Rightarrow> (Inl AttributeError, dc1, [])
             | Some inst \<Rightarrow>
                 (case send (trace_message ev inst) (turn dc1) of
                    (Inl e, tc) \<Rightarrow>
                      (Inl e, dc1\<lparr>turn := tc\<rparr>, [Send_trace_activity (trace_message ev inst)])
                  | (Inr u, tc) \<Rightarrow>
                      (Inr handled, dc1\<lparr>turn := tc\<rparr>,
                       [Send_trace_activity (trace_message ev inst)])))
          else (Inr handled, dc1, []))"

text \<open>
  Lines 51 to 61: \<^verbatim>\<open>return self.dialogs.get_internal_version()\<close>.
\<close>

definition get_internal_version :: "fingerprint \<Rightarrow> dialog_container \<Rightarrow> string" where
  "get_internal_version H self = dialog_set_get_internal_version H (dialogs self)"

text \<open>
  Lines 63 to 83:
  \<^verbatim>\<open>current = dialog_context.active_dialog.version\<close> raises \<^verbatim>\<open>AttributeError\<close> when
  there is no active dialog;
  \<^verbatim>\<open>dialog_context.active_dialog.version = self.get_internal_version()\<close> is the write;
  \<^verbatim>\<open>if current and current != dialog_context.active_dialog.version\<close> compares the
  value read before the write with the version read back after it; in that case the
  method awaits
  \<^verbatim>\<open>dialog_context.emit_event(DialogEvents.version_changed, self.id, True, False)\<close> and
  drops its verdict. The method returns \<^verbatim>\<open>None\<close>.
\<close>

definition check_for_version_change_async ::
  "fingerprint \<Rightarrow> emitter \<Rightarrow> dialog_container \<Rightarrow> dialog_context \<Rightarrow> unit outcome" where
  "check_for_version_change_async H emit_event self dc =
     (case active_dialog dc of
        None \<Rightarrow> (Inl AttributeError, dc, [])
      | Some inst \<Rightarrow>
          let current = version inst;
              dc1 = set_active_version (Some (get_internal_version H self)) dc
          in if truthy current \<and> Some current \<noteq> active_version dc1 then
               (case emit_event version_changed (container_id self) True False dc1 of
                  (Inl e, dc2) \<Rightarrow>
                    (Inl e, dc2, [Emit_event version_changed (container_id self) True False])
                | (Inr h, dc2) \<Rightarrow>
                    (Inr (), dc2, [Emit_event version_changed (container_id self) True False]))
             else (Inr (), dc1, []))"

section \<open>Sample values\<close>

text \<open>
  A small container, a dialog context whose active dialog is an instance of it, and
  simple collaborators. The theorems below are instantiated at these values.
\<close>

definition sample_fingerprint :: fingerprint where
  "sample_fingerprint xs =
     concat (map (\<lambda>(i, v). i @ (case v of None \<Rightarrow> [] | Some s \<Rightarrow> ''@'' @ s) @ '';'') xs)"

definition sample_container :: dialog_container where
  "sample_container =
     \<lparr>container_id = ''root'',
      dialogs = \<lparr>members = [\<lparr>dialog_id = ''a'', dialog_version = None\<rparr>,
                            \<lparr>dialog_id = ''b'', dialog_version = Some ''2''\<rparr>]\<rparr>\<rparr>"

definition sample_instance :: "string option \<Rightarrow> dialog_instance" where
  "sample_instance v = \<lparr>instance_id = ''root'', state = [], version = v\<rparr>"

definition sample_context :: "string option \<Rightarrow> dialog_context" where
  "sample_context v =
     \<lparr>stack = [\<lparr>instance_id = ''outer'', state = [], version = None\<rparr>, sample_instance v],
      turn = \<lparr>activities = []\<rparr>\<rparr>"

definition empty_context :: dialog_context where
  "empty_context = \<lparr>stack = [], turn = \<lparr>activities = []\<rparr>\<rparr>"

definition sample_event :: dialog_event where
  "sample_event = \<lparr>name = ''versionChanged'', event_value = ''root'', bubble = True\<rparr>"

definition other_event :: dialog_event where
  "other_event = \<lparr>name = ''cancelDialog'', event_value = [], bubble = True\<rparr>"

definition declining_emitter :: emitter where
  "declining_emitter n v b f dc = (Inr False, dc)"

definition accepting_emitter :: emitter where
  "accepting_emitter n v b f dc = (Inr True, dc)"

definition failing_emitter :: emitter where
  "failing_emitter n v b f dc = (Inl (Failure ''handler''), dc)"

definition declining_base :: base_handler where
  "declining_base dc ev = (Inr False, dc)"

definition accepting_base :: base_handler where
  "accepting_base dc ev = (Inr True, dc)"

definition failing_base :: base_handler where
  "failing_base dc ev = (Inl (Failure ''base''), dc)"

definition recording_sink :: trace_sink where
  "recording_sink m tc = (Inr (), tc\<lparr>activities := activities tc @ [m]\<rparr>)"

definition failing_sink :: trace_sink where
  "failing_sink m tc = (Inl (Failure ''sink''), tc)"

text \<open>
  Three more emitters. The first handles the event by rewriting the stored version of
  the active dialog; the second runs the version-change check again while it handles
  the event; the third writes the arguments it was called with into the turn context.
\<close>

definition resetting_emitter :: emitter where
  "resetting_emitter n v b f dc = (Inr True, set_active_version (Some ''reset'') dc)"

definition reentrant_emitter :: emitter where
  "reentrant_emitter n v b f dc =
     (case check_for_version_change_async sample_fingerprint declining_emitter
             sample_container dc of
        (r, dc', cs) \<Rightarrow> (Inr True, dc'))"

definition recording_emitter :: emitter where
  "recording_emitter n v b f dc =
     (Inr False,
      dc\<lparr>turn := (turn dc)\<lparr>activities := activities (turn dc) @
         [n, v, if b then ''bubble'' else ''no bubble'',
          if f then ''from leaf'' else ''not from leaf'']\<rparr>\<rparr>)"

section \<open>Auxiliary facts\<close>

lemma active_dialog_set_active_version:
  "active_dialog dc = Some inst \<Longrightarrow>
   active_dialog (set_active_version v dc) = Some (inst\<lparr>version := v\<rparr>)"
  by (auto simp: active_dialog_def set_active_version_def split: if_splits)

lemma active_version_set_active_version:
  "active_dialog dc = Some inst \<Longrightarrow> active_version (set_active_version v dc) = Some v"
  by (simp add: active_version_def active_dialog_set_active_version)

lemma stack_set_active_version:
  "active_dialog dc = Some inst \<Longrightarrow>
   stack (set_active_version v dc) = butlast (stack dc) @ [inst\<lparr>version := v\<rparr>]"
  by (auto simp: active_dialog_def set_active_version_def split: if_splits)

lemma check_no_event:
  assumes "active_dialog dc = Some inst"
    and "\<not> (truthy (version inst) \<and> version inst \<noteq> Some (get_internal_version H self))"
  shows "check_for_version_change_async H emit self dc =
           (Inr (), set_active_version (Some (get_internal_version H self)) dc, [])"
  using assms
  by (auto simp: check_for_version_change_async_def Let_def active_version_set_active_version)

lemma check_event:
  assumes "active_dialog dc = Some inst"
    and "truthy (version inst)" and "version inst \<noteq> Some (get_internal_version H self)"
  shows "check_for_version_change_async H emit self dc =
           (case emit version_changed (container_id self) True False
                   (set_active_version (Some (get_internal_version H self)) dc) of
              (r, dc2) \<Rightarrow> (map_sum id (\<lambda>h. ()) r, dc2,
                           [Emit_event version_changed (container_id self) True False]))"
  using assms
  by (auto simp: check_for_version_change_async_def Let_def active_version_set_active_version
           split: prod.splits sum.splits)

lemma check_context:
  assumes "active_dialog dc = Some inst"
  shows "context_of (check_for_version_change_async H emit self dc) =
           (if truthy (version inst) \<and> version inst \<noteq> Some (get_internal_version H self)
            then snd (emit version_changed (container_id self) True False
                        (set_active_version (Some (get_internal_version H self)) dc))
            else set_active_version (Some (get_internal_version H self)) dc)"
proof (cases "truthy (version inst) \<and> version inst \<noteq> Some (get_internal_version H self)")
  case True
  then have "check_for_version_change_async H emit self dc =
           (case emit version_changed (container_id self) True False
                   (set_active_version (Some (get_internal_version H self)) dc) of
              (r, dc2) \<Rightarrow> (map_sum id (\<lambda>h. ()) r, dc2,
                           [Emit_event version_changed (container_id self) True False]))"
    using check_event [where H = H and self = self and emit = emit, OF assms] by blast
  then show ?thesis
    unfolding if_P [OF True] by (simp add: context_of_def split: prod.splits)
next
  case False
  have "check_for_version_change_async H emit self dc =
           (Inr (), set_active_version (Some (get_internal_version H self)) dc, [])"
    by (rule check_no_event [where H = H and self = self and emit = emit, OF assms False])
  then show ?thesis
    unfolding if_not_P [OF False] by (simp add: context_of_def)
qed

lemma check_calls:
  assumes "active_dialog dc = Some inst"
  shows "calls_of (check_for_version_change_async H emit self dc) =
           (if truthy (version inst) \<and> version inst \<noteq> Some (get_internal_version H self)
            then [Emit_event version_changed (container_id self) True False] else [])"
proof (cases "truthy (version inst) \<and> version inst \<noteq> Some (get_internal_version H self)")
  case True
  then have "check_for_version_change_async H emit self dc =
           (case emit version_changed (container_id self) True False
                   (set_active_version (Some (get_internal_version H self)) dc) of
              (r, dc2) \<Rightarrow> (map_sum id (\<lambda>h. ()) r, dc2,
                           [Emit_event version_changed (container_id self) True False]))"
    using check_event [where H = H and self = self and emit = emit, OF assms] by blast
  then show ?thesis
    unfolding if_P [OF True] by (simp add: calls_of_def split: prod.splits)
next
  case False
  have "check_for_version_change_async H emit self dc =
           (Inr (), set_active_version (Some (get_internal_version H self)) dc, [])"
    by (rule check_no_event [where H = H and self = self and emit = emit, OF assms False])
  then show ?thesis
    unfolding if_not_P [OF False] by (simp add: calls_of_def)
qed

lemma check_result:
  assumes "active_dialog dc = Some inst"
  shows "result_of (check_for_version_change_async H emit self dc) =
           (if truthy (version inst) \<and> version inst \<noteq> Some (get_internal_version H self)
            then map_sum id (\<lambda>h. ())
                   (fst (emit version_changed (container_id self) True False
                           (set_active_version (Some (get_internal_version H self)) dc)))
            else Inr ())"
proof (cases "truthy (version inst) \<and> version inst \<noteq> Some (get_internal_version H self)")
  case True
  then have "check_for_version_change_async H emit self dc =
           (case emit version_changed (container_id self) True False
                   (set_active_version (Some (get_internal_version H self)) dc) of
              (r, dc2) \<Rightarrow> (map_sum id (\<lambda>h. ()) r, dc2,
                           [Emit_event version_changed (container_id self) True False]))"
    using check_event [where H = H and self = self and emit = emit, OF assms] by blast
  then show ?thesis
    unfolding if_P [OF True] by (simp add: result_of_def split: prod.splits)
next
  case False
  have "check_for_version_change_async H emit self dc =
           (Inr (), set_active_version (Some (get_internal_version H self)) dc, [])"
    by (rule check_no_event [where H = H and self = self and emit = emit, OF assms False])
  then show ?thesis
    unfolding if_not_P [OF False] by (simp add: result_of_def)
qed

lemma sample_active_dialog:
  "active_dialog (sample_context v) = Some (sample_instance v)"
  by (simp add: active_dialog_def sample_context_def)

lemma sample_version:
  "get_internal_version sample_fingerprint sample_container = ''a;b@2;''"
  by (simp add: get_internal_version_def dialog_set_get_internal_version_def
        sample_fingerprint_def sample_container_def)

lemma sample_container_id:
  "container_id sample_container = ''root''"
  by (simp add: sample_container_def)

lemma on_dialog_event_base_fails:
  "super dc ev = (Inl e, dc') \<Longrightarrow> on_dialog_event super send dc ev = (Inl e, dc', [])"
  by (simp add: on_dialog_event_def)

lemma on_dialog_event_skip:
  "super dc ev = (Inr handled, dc') \<Longrightarrow> handled \<or> name ev \<noteq> version_changed \<Longrightarrow>
   on_dialog_event super send dc ev = (Inr handled, dc', [])"
  by (auto simp: on_dialog_event_def)

lemma on_dialog_event_no_active:
  "super dc ev = (Inr False, dc') \<Longrightarrow> name ev = version_changed \<Longrightarrow>
   active_dialog dc' = None \<Longrightarrow>
   on_dialog_event super send dc ev = (Inl AttributeError, dc', [])"
  by (simp add: on_dialog_event_def)

lemma on_dialog_event_trace:
  "super dc ev = (Inr False, dc') \<Longrightarrow> name ev = version_changed \<Longrightarrow>
   active_dialog dc' = Some inst \<Longrightarrow>
   on_dialog_event super send dc ev =
     (case send (trace_message ev inst) (turn dc') of
        (r, tc) \<Rightarrow> (map_sum id (\<lambda>u. False) r, dc'\<lparr>turn := tc\<rparr>,
                    [Send_trace_activity (trace_message ev inst)]))"
  by (simp add: on_dialog_event_def split: prod.splits sum.splits)


lemma sample_event_name:
  "name sample_event = ''versionChanged''"
  by (simp add: sample_event_def)

lemma find_SomeD:
  "find P xs = Some x \<Longrightarrow> x \<in> set xs \<and> P x"
  by (induction xs) (auto split: if_splits)

lemma set_active_version_same:
  assumes "active_dialog dc = Some inst" and "version inst = v"
  shows "set_active_version v dc = dc"
proof -
  have ne: "stack dc \<noteq> []" and top: "last (stack dc) = inst"
    using assms(1) by (auto simp: active_dialog_def split: if_splits)
  have "(last (stack dc))\<lparr>version := v\<rparr> = last (stack dc)"
    using top assms(2) by simp
  then have "butlast (stack dc) @ [(last (stack dc))\<lparr>version := v\<rparr>] = stack dc"
    using ne by simp
  then show ?thesis
    by (simp add: set_active_version_def)
qed

lemma check_final_version:
  assumes "active_dialog dc = Some inst"
    and "truthy (version inst) \<and> version inst \<noteq> Some (get_internal_version H self) \<longrightarrow>
           active_version (snd (emit version_changed (container_id self) True False
              (set_active_version (Some (get_internal_version H self)) dc))) =
           Some (Some (get_internal_version H self))"
  shows "active_version (context_of (check_for_version_change_async H emit self dc)) =
           Some (Some (get_internal_version H self))"
proof -
  have ctx: "context_of (check_for_version_change_async H emit self dc) =
           (if truthy (version inst) \<and> version inst \<noteq> Some (get_internal_version H self)
            then snd (emit version_changed (container_id self) True False
                        (set_active_version (Some (get_internal_version H self)) dc))
            else set_active_version (Some (get_internal_version H self)) dc)"
    using assms(1) by (rule check_context)
  show ?thesis
  proof (cases "truthy (version inst) \<and> version inst \<noteq> Some (get_internal_version H self)")
    case True
    have "active_version (snd (emit version_changed (container_id self) True False
              (set_active_version (Some (get_internal_version H self)) dc))) =
           Some (Some (get_internal_version H self))"
      using assms(2) True by (rule mp)
    then show ?thesis
      unfolding ctx if_P [OF True] .
  next
    case False
    have "active_version (set_active_version (Some (get_internal_version H self)) dc) =
        Some (Some (get_internal_version H self))"
      using assms(1) by (rule active_version_set_active_version)
    then show ?thesis
      unfolding ctx if_not_P [OF False] .
  qed
qed

lemma check_settled:
  assumes "active_version dc = Some (Some (get_internal_version H self))"
  shows "check_for_version_change_async H emit self dc = (Inr (), dc, [])"
proof -
  obtain inst where active: "active_dialog dc = Some inst"
    and v: "version inst = Some (get_internal_version H self)"
    using assms by (auto simp: active_version_def)
  have quiet: "\<not> (truthy (version inst) \<and> version inst \<noteq> Some (get_internal_version H self))"
    using v by simp
  have "check_for_version_change_async H emit self dc =
      (Inr (), set_active_version (Some (get_internal_version H self)) dc, [])"
    using active quiet by (rule check_no_event)
  then show ?thesis
    by (simp add: set_active_version_same [OF active v])
qed

lemma sample_written:
  "set_active_version w (sample_context v) = sample_context w"
  by (simp add: set_active_version_def sample_context_def sample_instance_def)

lemma sample_active_version:
  "active_version (sample_context v) = Some v"
  by (simp add: active_version_def sample_active_dialog sample_instance_def)

lemma sample_stale:
  "truthy (version (sample_instance (Some ''old''))) \<and>
   version (sample_instance (Some ''old'')) \<noteq>
     Some (get_internal_version sample_fingerprint sample_container)"
  by (simp add: sample_instance_def sample_version)

lemma sample_check_event:
  "check_for_version_change_async sample_fingerprint emit sample_container
     (sample_context (Some ''old'')) =
   (case emit ''versionChanged'' ''root'' True False (sample_context (Some ''a;b@2;'')) of
      (r, dc2) \<Rightarrow> (map_sum id (\<lambda>h. ()) r, dc2,
                   [Emit_event ''versionChanged'' ''root'' True False]))"
proof -
  have "check_for_version_change_async sample_fingerprint emit sample_container
     (sample_context (Some ''old'')) =
     (case emit version_changed (container_id sample_container) True False
             (set_active_version (Some (get_internal_version sample_fingerprint
                sample_container)) (sample_context (Some ''old''))) of
        (r, dc2) \<Rightarrow> (map_sum id (\<lambda>h. ()) r, dc2,
                     [Emit_event version_changed (container_id sample_container) True False]))"
    using sample_active_dialog sample_stale [THEN conjunct1] sample_stale [THEN conjunct2]
    by (rule check_event)
  then show ?thesis
    by (simp only: sample_version sample_written sample_container_id version_changed_def)
qed

lemma sample_check_settled:
  "check_for_version_change_async sample_fingerprint emit sample_container
     (sample_context (Some ''a;b@2;'')) = (Inr (), sample_context (Some ''a;b@2;''), [])"
  by (rule check_settled) (simp add: sample_active_version sample_version)

lemma reentrant_emitter_settled:
  "reentrant_emitter n v b f (sample_context (Some ''a;b@2;'')) =
     (Inr True, sample_context (Some ''a;b@2;''))"
  by (simp add: reentrant_emitter_def sample_check_settled)

section \<open>The version-change check\<close>

text \<open>
  C1. On a context whose active dialog is set, the check writes the freshly computed
  fingerprint into the active dialog's version before anything else happens: the
  context handed to the event emitter already carries it, the decision to raise the
  event is taken on the value read before the write, and without an event the context
  left behind is the written one. When the event is raised the context left behind is
  the one its handling leaves. So the stored version after the call is the fresh
  fingerprint when no event is raised, and when one is raised as soon as its handling,
  whatever verdict it returns and also when it fails, leaves the stored version of the
  context it was handed as the check wrote it.
\<close>

theorem check_writes_version_before_event:
  assumes "active_dialog dc = Some inst"
  shows "(let next = get_internal_version H self;
              dc1 = set_active_version (Some next) dc
          in active_version dc1 = Some (Some next) \<and>
             (truthy (version inst) \<and> version inst \<noteq> Some next \<longrightarrow>
                context_of (check_for_version_change_async H emit self dc) =
                  snd (emit version_changed (container_id self) True False dc1)) \<and>
             (\<not> (truthy (version inst) \<and> version inst \<noteq> Some next) \<longrightarrow>
                context_of (check_for_version_change_async H emit self dc) = dc1) \<and>
             ((truthy (version inst) \<and> version inst \<noteq> Some next \<longrightarrow>
                 active_version (snd (emit version_changed (container_id self) True False dc1)) =
                   active_version dc1) \<longrightarrow>
                active_version (context_of (check_for_version_change_async H emit self dc)) =
                  Some (Some next)))"
proof -
  let ?next = "get_internal_version H self"
  let ?dc1 = "set_active_version (Some ?next) dc"
  let ?stale = "truthy (version inst) \<and> version inst \<noteq> Some ?next"
  have written: "active_version ?dc1 = Some (Some ?next)"
    using assms by (rule active_version_set_active_version)
  have ctx: "context_of (check_for_version_change_async H emit self dc) =
               (if ?stale then snd (emit version_changed (container_id self) True False ?dc1)
                else ?dc1)"
    using assms by (rule check_context)
  have raised: "context_of (check_for_version_change_async H emit self dc) =
      snd (emit version_changed (container_id self) True False ?dc1)" if ?stale
    unfolding ctx if_P [OF that] ..
  have quiet: "context_of (check_for_version_change_async H emit self dc) = ?dc1"
    if "\<not> ?stale"
    unfolding ctx if_not_P [OF that] ..
  have final: "active_version (context_of (check_for_version_change_async H emit self dc)) =
                 Some (Some ?next)"
    if kept: "?stale \<longrightarrow>
        active_version (snd (emit version_changed (container_id self) True False ?dc1)) =
          active_version ?dc1"
  proof -
    have "?stale \<longrightarrow>
        active_version (snd (emit version_changed (container_id self) True False ?dc1)) =
          Some (Some ?next)"
      using kept unfolding written .
    with assms show ?thesis
      by (rule check_final_version)
  qed
  show ?thesis
    unfolding Let_def
  proof (intro conjI impI)
    show "active_version ?dc1 = Some (Some ?next)" by (rule written)
  next
    assume ?stale
    then show "context_of (check_for_version_change_async H emit self dc) =
      snd (emit version_changed (container_id self) True False ?dc1)" by (rule raised)
  next
    assume "\<not> ?stale"
    then show "context_of (check_for_version_change_async H emit self dc) = ?dc1"
      by (rule quiet)
  next
    assume "?stale \<longrightarrow>
        active_version (snd (emit version_changed (container_id self) True False ?dc1)) =
          active_version ?dc1"
    then show "active_version (context_of (check_for_version_change_async H emit self dc)) =
                 Some (Some ?next)" by (rule final)
  qed
qed

theorem check_writes_version_before_event_witness:
  "active_version
     (context_of (check_for_version_change_async sample_fingerprint declining_emitter
        sample_container (sample_context (Some ''old'')))) = Some (Some ''a;b@2;'') \<and>
   active_version
     (context_of (check_for_version_change_async sample_fingerprint accepting_emitter
        sample_container (sample_context (Some ''old'')))) = Some (Some ''a;b@2;'') \<and>
   active_version
     (context_of (check_for_version_change_async sample_fingerprint failing_emitter
        sample_container (sample_context (Some ''old'')))) = Some (Some ''a;b@2;'') \<and>
   active_version
     (context_of (check_for_version_change_async sample_fingerprint reentrant_emitter
        sample_container (sample_context (Some ''old'')))) = Some (Some ''a;b@2;'')"
proof -
  have final: "active_version
     (context_of (check_for_version_change_async sample_fingerprint emit
        sample_container (sample_context (Some ''old'')))) = Some (Some ''a;b@2;'')"
    if "active_version (snd (emit version_changed (container_id sample_container) True False
            (sample_context (Some ''a;b@2;'')))) =
          active_version (sample_context (Some ''a;b@2;''))" for emit
    using check_writes_version_before_event [where H = sample_fingerprint
        and self = sample_container and emit = emit,
        OF sample_active_dialog [of "Some ''old''"]] that
    by (simp add: Let_def sample_version sample_written)
  have "active_version (snd (declining_emitter n v b f d)) = active_version d"
    and "active_version (snd (accepting_emitter n v b f d)) = active_version d"
    and "active_version (snd (failing_emitter n v b f d)) = active_version d"
    for n v b f d
    by (simp_all add: declining_emitter_def accepting_emitter_def failing_emitter_def)
  moreover have "active_version (snd (reentrant_emitter n v b f
        (sample_context (Some ''a;b@2;'')))) = active_version (sample_context (Some ''a;b@2;''))"
    for n v b f
    by (simp add: reentrant_emitter_settled)
  ultimately show ?thesis
    using final [of declining_emitter] final [of accepting_emitter] final [of failing_emitter]
      final [of reentrant_emitter]
    by simp
qed

text \<open>
  Without a condition on the handling of the event the final value is not guaranteed: with
  a handler that rewrites the stored version, the version after the call is the
  handler's and not the fresh fingerprint.
\<close>

theorem check_version_after_resetting_handler_counterexample:
  "active_dialog (sample_context (Some ''old'')) = Some (sample_instance (Some ''old'')) \<and>
   active_version
     (context_of (check_for_version_change_async sample_fingerprint resetting_emitter
        sample_container (sample_context (Some ''old'')))) = Some (Some ''reset'') \<and>
   active_version
     (context_of (check_for_version_change_async sample_fingerprint resetting_emitter
        sample_container (sample_context (Some ''old'')))) \<noteq>
     Some (Some (get_internal_version sample_fingerprint sample_container))"
  by (simp add: sample_active_dialog sample_check_event context_of_def resetting_emitter_def
        sample_written sample_active_version sample_version)

text \<open>
  C2. The check applies the event emitter exactly when the version read before the
  write was set (neither \<^verbatim>\<open>None\<close> nor the empty string) and differs from the fresh
  fingerprint. It then applies it once, as
  \<^verbatim>\<open>emit_event("versionChanged", self.id, True, False)\<close> (the container's own id as
  value, bubbling on, not from the leaf) to the context that already holds the fresh
  fingerprint, and its outcome is the emitter's: the emitter's failure if it fails, the
  context it leaves. Otherwise the outcome is the written context and nothing else,
  whatever the emitter; so with no stored version no event is raised, whatever the
  fingerprint.
\<close>

theorem check_emits_iff_stored_version_differs:
  assumes "active_dialog dc = Some inst"
  shows "check_for_version_change_async H emit self dc =
           (if (\<exists>s. version inst = Some s \<and> s \<noteq> []) \<and>
               version inst \<noteq> Some (get_internal_version H self)
            then (case emit ''versionChanged'' (container_id self) True False
                         (set_active_version (Some (get_internal_version H self)) dc) of
                    (r, dc2) \<Rightarrow>
                      (map_sum id (\<lambda>h. ()) r, dc2,
                       [Emit_event ''versionChanged'' (container_id self) True False]))
            else (Inr (), set_active_version (Some (get_internal_version H self)) dc, [])) \<and>
         (version inst = None \<or> version inst = Some [] \<longrightarrow>
            check_for_version_change_async H emit self dc =
              (Inr (), set_active_version (Some (get_internal_version H self)) dc, []))"
proof -
  let ?next = "get_internal_version H self"
  let ?stale = "truthy (version inst) \<and> version inst \<noteq> Some ?next"
  have t: "truthy (version inst) = (\<exists>s. version inst = Some s \<and> s \<noteq> [])"
    by (cases "version inst") simp_all
  have main: "check_for_version_change_async H emit self dc =
           (if ?stale
            then (case emit ''versionChanged'' (container_id self) True False
                         (set_active_version (Some ?next) dc) of
                    (r, dc2) \<Rightarrow>
                      (map_sum id (\<lambda>h. ()) r, dc2,
                       [Emit_event ''versionChanged'' (container_id self) True False]))
            else (Inr (), set_active_version (Some ?next) dc, []))"
  proof (cases ?stale)
    case True
    have "check_for_version_change_async H emit self dc =
           (case emit version_changed (container_id self) True False
                   (set_active_version (Some ?next) dc) of
              (r, dc2) \<Rightarrow> (map_sum id (\<lambda>h. ()) r, dc2,
                           [Emit_event version_changed (container_id self) True False]))"
      using assms True [THEN conjunct1] True [THEN conjunct2] by (rule check_event)
    then show ?thesis
      unfolding if_P [OF True] version_changed_def .
  next
    case False
    have "check_for_version_change_async H emit self dc =
        (Inr (), set_active_version (Some ?next) dc, [])"
      using assms False by (rule check_no_event)
    then show ?thesis
      unfolding if_not_P [OF False] .
  qed
  have unset: "check_for_version_change_async H emit self dc =
        (Inr (), set_active_version (Some ?next) dc, [])"
    if "version inst = None \<or> version inst = Some []"
  proof -
    have "\<not> ?stale" using that by auto
    with assms show ?thesis by (rule check_no_event)
  qed
  show ?thesis
    using main unset unfolding t by blast
qed

theorem check_emits_iff_stored_version_differs_witness:
  "check_for_version_change_async sample_fingerprint recording_emitter sample_container
      (sample_context (Some ''old'')) =
     (Inr (),
      (sample_context (Some ''a;b@2;''))
        \<lparr>turn := \<lparr>activities = [''versionChanged'', ''root'', ''bubble'', ''not from leaf'']\<rparr>\<rparr>,
      [Emit_event ''versionChanged'' ''root'' True False]) \<and>
   check_for_version_change_async sample_fingerprint recording_emitter sample_container
      (sample_context (Some ''a;b@2;'')) = (Inr (), sample_context (Some ''a;b@2;''), []) \<and>
   check_for_version_change_async sample_fingerprint recording_emitter sample_container
      (sample_context None) = (Inr (), sample_context (Some ''a;b@2;''), []) \<and>
   check_for_version_change_async sample_fingerprint recording_emitter sample_container
      (sample_context (Some [])) = (Inr (), sample_context (Some ''a;b@2;''), [])"
proof -
  have t: "check_for_version_change_async sample_fingerprint recording_emitter
              sample_container (sample_context v) =
           (if (\<exists>s. v = Some s \<and> s \<noteq> []) \<and> v \<noteq> Some ''a;b@2;''
            then (case recording_emitter ''versionChanged'' ''root'' True False
                         (sample_context (Some ''a;b@2;'')) of
                    (r, dc2) \<Rightarrow>
                      (map_sum id (\<lambda>h. ()) r, dc2,
                       [Emit_event ''versionChanged'' ''root'' True False]))
            else (Inr (), sample_context (Some ''a;b@2;''), []))" for v
    using check_emits_iff_stored_version_differs [where H = sample_fingerprint
        and emit = recording_emitter and self = sample_container,
        OF sample_active_dialog [of v], THEN conjunct1]
    by (simp only: sample_version sample_written sample_container_id sample_instance_def
          dialog_instance.simps)
  have recorded: "recording_emitter ''versionChanged'' ''root'' True False
      (sample_context (Some ''a;b@2;'')) =
      (Inr False, (sample_context (Some ''a;b@2;''))
        \<lparr>turn := \<lparr>activities = [''versionChanged'', ''root'', ''bubble'', ''not from leaf'']\<rparr>\<rparr>)"
    by (simp add: recording_emitter_def sample_context_def)
  show ?thesis
    by (simp add: t recorded)
qed

text \<open>
  C3. Two checks in succession on the same context with the same container, so with
  the same fingerprint. The first applies the emitter at most once. Provided the
  handling of the event it raises, if it raises one, leaves the stored version of the
  context it was handed as the check wrote it, the second check reads the fingerprint
  the first one wrote: it applies no emitter and leaves the context as it found it. So
  both together raise at most one event.
\<close>

theorem check_twice_emits_at_most_once:
  assumes "active_dialog dc = Some inst"
    and "truthy (version inst) \<and> version inst \<noteq> Some (get_internal_version H self) \<longrightarrow>
           active_version (snd (emit version_changed (container_id self) True False
              (set_active_version (Some (get_internal_version H self)) dc))) =
           Some (Some (get_internal_version H self))"
  shows "(check_for_version_change_async H emit self dc =
            (Inr (), set_active_version (Some (get_internal_version H self)) dc, []) \<or>
          check_for_version_change_async H emit self dc =
            (case emit ''versionChanged'' (container_id self) True False
                    (set_active_version (Some (get_internal_version H self)) dc) of
               (r, dc2) \<Rightarrow>
                 (map_sum id (\<lambda>h. ()) r, dc2,
                  [Emit_event ''versionChanged'' (container_id self) True False]))) \<and>
         check_for_version_change_async H emit self
             (context_of (check_for_version_change_async H emit self dc)) =
           (Inr (), context_of (check_for_version_change_async H emit self dc), []) \<and>
         length (calls_of (check_for_version_change_async H emit self dc) @
                 calls_of (check_for_version_change_async H emit self
                     (context_of (check_for_version_change_async H emit self dc)))) \<le> 1"
proof -
  let ?next = "get_internal_version H self"
  let ?mid = "context_of (check_for_version_change_async H emit self dc)"
  let ?stale = "truthy (version inst) \<and> version inst \<noteq> Some ?next"
  have first: "check_for_version_change_async H emit self dc =
            (Inr (), set_active_version (Some ?next) dc, []) \<or>
          check_for_version_change_async H emit self dc =
            (case emit ''versionChanged'' (container_id self) True False
                    (set_active_version (Some ?next) dc) of
               (r, dc2) \<Rightarrow>
                 (map_sum id (\<lambda>h. ()) r, dc2,
                  [Emit_event ''versionChanged'' (container_id self) True False]))"
  proof (cases ?stale)
    case True
    have "check_for_version_change_async H emit self dc =
           (case emit version_changed (container_id self) True False
                   (set_active_version (Some ?next) dc) of
              (r, dc2) \<Rightarrow> (map_sum id (\<lambda>h. ()) r, dc2,
                           [Emit_event version_changed (container_id self) True False]))"
      using assms(1) True [THEN conjunct1] True [THEN conjunct2] by (rule check_event)
    then show ?thesis
      unfolding version_changed_def by (rule disjI2)
  next
    case False
    with assms(1) have "check_for_version_change_async H emit self dc =
        (Inr (), set_active_version (Some ?next) dc, [])"
      by (rule check_no_event)
    then show ?thesis by (rule disjI1)
  qed
  have "active_version ?mid = Some (Some ?next)"
    using assms by (rule check_final_version)
  then have second: "check_for_version_change_async H emit self ?mid = (Inr (), ?mid, [])"
    by (rule check_settled)
  have once: "length (calls_of (check_for_version_change_async H emit self dc)) \<le> 1"
    by (simp add: check_calls [where H = H and self = self and emit = emit, OF assms(1)])
  have "length (calls_of (check_for_version_change_async H emit self dc) @
                 calls_of (check_for_version_change_async H emit self ?mid)) \<le> 1"
    using once by (simp add: second calls_of_def)
  with first second show ?thesis by blast
qed

theorem check_twice_emits_at_most_once_witness:
  "check_for_version_change_async sample_fingerprint reentrant_emitter sample_container
      (sample_context (Some ''old'')) =
     (Inr (), sample_context (Some ''a;b@2;''),
      [Emit_event ''versionChanged'' ''root'' True False]) \<and>
   check_for_version_change_async sample_fingerprint reentrant_emitter sample_container
      (context_of (check_for_version_change_async sample_fingerprint reentrant_emitter
         sample_container (sample_context (Some ''old'')))) =
     (Inr (), sample_context (Some ''a;b@2;''), [])"
proof -
  have first: "check_for_version_change_async sample_fingerprint reentrant_emitter
      sample_container (sample_context (Some ''old'')) =
     (Inr (), sample_context (Some ''a;b@2;''),
      [Emit_event ''versionChanged'' ''root'' True False])"
    by (simp add: sample_check_event reentrant_emitter_settled)
  have kept: "truthy (version (sample_instance (Some ''old''))) \<and>
      version (sample_instance (Some ''old'')) \<noteq>
        Some (get_internal_version sample_fingerprint sample_container) \<longrightarrow>
      active_version (snd (reentrant_emitter version_changed (container_id sample_container)
        True False (set_active_version (Some (get_internal_version sample_fingerprint
          sample_container)) (sample_context (Some ''old''))))) =
      Some (Some (get_internal_version sample_fingerprint sample_container))"
    by (simp add: sample_version sample_written reentrant_emitter_settled
          sample_active_version)
  have mid: "context_of (check_for_version_change_async sample_fingerprint reentrant_emitter
         sample_container (sample_context (Some ''old''))) = sample_context (Some ''a;b@2;'')"
    by (simp add: first context_of_def)
  from check_twice_emits_at_most_once [where H = sample_fingerprint
      and emit = reentrant_emitter and self = sample_container,
      OF sample_active_dialog [of "Some ''old''"] kept, THEN conjunct2, THEN conjunct1]
  have "check_for_version_change_async sample_fingerprint reentrant_emitter sample_container
      (context_of (check_for_version_change_async sample_fingerprint reentrant_emitter
         sample_container (sample_context (Some ''old'')))) =
     (Inr (), context_of (check_for_version_change_async sample_fingerprint reentrant_emitter
         sample_container (sample_context (Some ''old''))), [])" .
  then have "check_for_version_change_async sample_fingerprint reentrant_emitter
      sample_container
      (context_of (check_for_version_change_async sample_fingerprint reentrant_emitter
         sample_container (sample_context (Some ''old'')))) =
     (Inr (), sample_context (Some ''a;b@2;''), [])"
    unfolding mid .
  with first show ?thesis ..
qed

text \<open>
  Without a condition on the handling of the event the bound of one event fails: with
  a handler that rewrites the stored version, the second check reads the handler's
  value and raises the event again.
\<close>

theorem check_twice_with_resetting_handler_counterexample:
  "calls_of (check_for_version_change_async sample_fingerprint resetting_emitter
      sample_container (sample_context (Some ''old''))) @
   calls_of (check_for_version_change_async sample_fingerprint resetting_emitter
      sample_container
      (context_of (check_for_version_change_async sample_fingerprint resetting_emitter
         sample_container (sample_context (Some ''old''))))) =
     [Emit_event ''versionChanged'' ''root'' True False,
      Emit_event ''versionChanged'' ''root'' True False] \<and>
   \<not> length
       (calls_of (check_for_version_change_async sample_fingerprint resetting_emitter
          sample_container (sample_context (Some ''old''))) @
        calls_of (check_for_version_change_async sample_fingerprint resetting_emitter
          sample_container
          (context_of (check_for_version_change_async sample_fingerprint resetting_emitter
             sample_container (sample_context (Some ''old'')))))) \<le> 1"
proof -
  have first: "check_for_version_change_async sample_fingerprint resetting_emitter
      sample_container (sample_context (Some ''old'')) =
     (Inr (), sample_context (Some ''reset''),
      [Emit_event ''versionChanged'' ''root'' True False])"
    by (simp add: sample_check_event resetting_emitter_def sample_written)
  have stale: "truthy (version (sample_instance (Some ''reset'')))"
    "version (sample_instance (Some ''reset'')) \<noteq>
       Some (get_internal_version sample_fingerprint sample_container)"
    by (simp_all add: sample_instance_def sample_version)
  have "check_for_version_change_async sample_fingerprint resetting_emitter
      sample_container (sample_context (Some ''reset'')) =
     (case resetting_emitter version_changed (container_id sample_container) True False
             (set_active_version (Some (get_internal_version sample_fingerprint
                sample_container)) (sample_context (Some ''reset''))) of
        (r, dc2) \<Rightarrow> (map_sum id (\<lambda>h. ()) r, dc2,
                     [Emit_event version_changed (container_id sample_container) True False]))"
    using sample_active_dialog stale by (rule check_event)
  then have second: "calls_of (check_for_version_change_async sample_fingerprint
      resetting_emitter sample_container (sample_context (Some ''reset''))) =
      [Emit_event ''versionChanged'' ''root'' True False]"
    by (simp add: calls_of_def resetting_emitter_def sample_container_id version_changed_def)
  show ?thesis
    by (simp add: first context_of_def second) (simp add: calls_of_def)
qed

section \<open>Event handling\<close>

text \<open>
  C4. When the base handler returns without having handled the event and the event is
  named \<^verbatim>\<open>versionChanged\<close>, \<^verbatim>\<open>on_dialog_event\<close> applies the trace sink
  \<^verbatim>\<open>send_trace_activity\<close> once, to the message that holds the event's name and the id
  of the active dialog and to the turn context the base handler left; its outcome is
  the sink's: the sink's failure if it fails, the turn context it leaves. When the base
  handler handled the event, or the event has another name, the outcome is the base
  handler's and nothing else, whatever the sink: no trace is sent.
\<close>

theorem on_dialog_event_traces_unhandled_version_changed:
  assumes "super dc ev = (Inr handled, dc')"
  shows "(\<not> handled \<and> name ev = ''versionChanged'' \<and> active_dialog dc' = Some inst \<longrightarrow>
            on_dialog_event super send dc ev =
              (case send (''Unhandled dialog event: '' @ name ev @ ''. Active Dialog: '' @
                          instance_id inst) (turn dc') of
                 (r, tc) \<Rightarrow>
                   (map_sum id (\<lambda>u. False) r, dc'\<lparr>turn := tc\<rparr>,
                    [Send_trace_activity
                       (''Unhandled dialog event: '' @ name ev @ ''. Active Dialog: '' @
                        instance_id inst)]))) \<and>
         (handled \<or> name ev \<noteq> ''versionChanged'' \<longrightarrow>
            on_dialog_event super send dc ev = (Inr handled, dc', []))"
proof (intro conjI impI)
  assume a: "\<not> handled \<and> name ev = ''versionChanged'' \<and> active_dialog dc' = Some inst"
  then have base: "super dc ev = (Inr False, dc')" and nm: "name ev = version_changed"
    and active: "active_dialog dc' = Some inst"
    using assms by (simp_all add: version_changed_def)
  have "on_dialog_event super send dc ev =
     (case send (trace_message ev inst) (turn dc') of
        (r, tc) \<Rightarrow> (map_sum id (\<lambda>u. False) r, dc'\<lparr>turn := tc\<rparr>,
                    [Send_trace_activity (trace_message ev inst)]))"
    using base nm active by (rule on_dialog_event_trace)
  then show "on_dialog_event super send dc ev =
              (case send (''Unhandled dialog event: '' @ name ev @ ''. Active Dialog: '' @
                          instance_id inst) (turn dc') of
                 (r, tc) \<Rightarrow>
                   (map_sum id (\<lambda>u. False) r, dc'\<lparr>turn := tc\<rparr>,
                    [Send_trace_activity
                       (''Unhandled dialog event: '' @ name ev @ ''. Active Dialog: '' @
                        instance_id inst)]))"
    unfolding trace_message_def .
next
  assume "handled \<or> name ev \<noteq> ''versionChanged''"
  then have "handled \<or> name ev \<noteq> version_changed"
    by (simp add: version_changed_def)
  with assms show "on_dialog_event super send dc ev = (Inr handled, dc', [])"
    by (rule on_dialog_event_skip)
qed

theorem on_dialog_event_traces_unhandled_version_changed_witness:
  "on_dialog_event declining_base recording_sink (sample_context None) sample_event =
     (Inr False,
      (sample_context None)\<lparr>turn :=
         \<lparr>activities = [''Unhandled dialog event: versionChanged. Active Dialog: root'']\<rparr>\<rparr>,
      [Send_trace_activity ''Unhandled dialog event: versionChanged. Active Dialog: root'']) \<and>
   on_dialog_event accepting_base recording_sink (sample_context None) sample_event =
     (Inr True, sample_context None, []) \<and>
   on_dialog_event declining_base recording_sink (sample_context None) other_event =
     (Inr False, sample_context None, [])"
proof -
  have declined: "declining_base (sample_context None) e = (Inr False, sample_context None)" for e
    by (simp add: declining_base_def)
  have accepted: "accepting_base (sample_context None) e = (Inr True, sample_context None)" for e
    by (simp add: accepting_base_def)
  have nm: "name sample_event = ''versionChanged''" "name other_event \<noteq> ''versionChanged''"
    "instance_id (sample_instance None) = ''root''"
    by (simp_all add: sample_event_def other_event_def sample_instance_def)
  have sent: "recording_sink m (turn (sample_context None)) = (Inr (), \<lparr>activities = [m]\<rparr>)" for m
    by (simp add: recording_sink_def sample_context_def)
  show ?thesis
    using on_dialog_event_traces_unhandled_version_changed [where super = declining_base
        and dc = "sample_context None" and ev = sample_event and handled = False
        and dc' = "sample_context None" and send = recording_sink
        and inst = "sample_instance None", OF declined]
      on_dialog_event_traces_unhandled_version_changed [where super = accepting_base
        and dc = "sample_context None" and ev = sample_event and handled = True
        and dc' = "sample_context None" and send = recording_sink
        and inst = "sample_instance None", OF accepted]
      on_dialog_event_traces_unhandled_version_changed [where super = declining_base
        and dc = "sample_context None" and ev = other_event and handled = False
        and dc' = "sample_context None" and send = recording_sink
        and inst = "sample_instance None", OF declined]
    by (simp add: sample_active_dialog nm sent)
qed

text \<open>
  C5. \<^verbatim>\<open>on_dialog_event\<close> returns the verdict of the base handler, unchanged: whenever
  it returns a value this is the base verdict; it does return it when the event was
  handled or has another name, and also on the trace branch once the trace has been
  sent, where the verdict stays false.
\<close>

theorem on_dialog_event_returns_base_verdict:
  assumes "super dc ev = (Inr handled, dc')"
  shows "(result_of (on_dialog_event super send dc ev) = Inr b \<longrightarrow> b = handled) \<and>
         (handled \<or> name ev \<noteq> ''versionChanged'' \<longrightarrow>
            result_of (on_dialog_event super send dc ev) = Inr handled) \<and>
         (active_dialog dc' = Some inst \<and>
          fst (send (trace_message ev inst) (turn dc')) = Inr () \<longrightarrow>
            result_of (on_dialog_event super send dc ev) = Inr handled)"
proof (cases "handled \<or> name ev \<noteq> version_changed")
  case True
  with assms have "on_dialog_event super send dc ev = (Inr handled, dc', [])"
    by (rule on_dialog_event_skip)
  then show ?thesis
    by (simp add: result_of_def)
next
  case False
  then have base: "super dc ev = (Inr False, dc')" and nm: "name ev = version_changed"
    and h: "\<not> handled"
    using assms by simp_all
  show ?thesis
  proof (cases "active_dialog dc'")
    case None
    with base nm have "on_dialog_event super send dc ev = (Inl AttributeError, dc', [])"
      by (rule on_dialog_event_no_active)
    then show ?thesis
      using None h nm by (simp add: result_of_def version_changed_def)
  next
    case (Some inst')
    have eq: "on_dialog_event super send dc ev =
       (case send (trace_message ev inst') (turn dc') of
          (r, tc) \<Rightarrow> (map_sum id (\<lambda>u. False) r, dc'\<lparr>turn := tc\<rparr>,
                      [Send_trace_activity (trace_message ev inst')]))"
      using base nm Some by (rule on_dialog_event_trace)
    obtain r tc where s: "send (trace_message ev inst') (turn dc') = (r, tc)"
      by (cases "send (trace_message ev inst') (turn dc')")
    have res: "result_of (on_dialog_event super send dc ev) = map_sum id (\<lambda>u. False) r"
      by (simp add: eq s result_of_def)
    have ok: "r = Inr ()"
      if "active_dialog dc' = Some inst \<and>
          fst (send (trace_message ev inst) (turn dc')) = Inr ()"
      using that Some s by simp
    show ?thesis
      using h nm ok by (cases r) (auto simp: res version_changed_def)
  qed
qed

theorem on_dialog_event_returns_base_verdict_witness:
  "result_of (on_dialog_event declining_base recording_sink (sample_context None) sample_event) =
     Inr False \<and>
   result_of (on_dialog_event accepting_base recording_sink (sample_context None) sample_event) =
     Inr True"
proof -
  have declined: "declining_base (sample_context None) sample_event =
      (Inr False, sample_context None)"
    by (simp add: declining_base_def)
  have accepted: "accepting_base (sample_context None) sample_event =
      (Inr True, sample_context None)"
    by (simp add: accepting_base_def)
  have sent: "fst (recording_sink m tc) = Inr ()" for m tc
    by (simp add: recording_sink_def)
  show ?thesis
    using on_dialog_event_returns_base_verdict [where super = declining_base
        and dc = "sample_context None" and ev = sample_event and handled = False
        and dc' = "sample_context None" and send = recording_sink
        and inst = "sample_instance None", OF declined]
      on_dialog_event_returns_base_verdict [where super = accepting_base
        and dc = "sample_context None" and ev = sample_event and handled = True
        and dc' = "sample_context None" and send = recording_sink
        and inst = "sample_instance None", OF accepted]
    by (simp add: sample_active_dialog sent)
qed



text \<open>
  C7. A failure of the base handler leaves \<^verbatim>\<open>on_dialog_event\<close> as it is, with the
  context the base handler left and no trace sent; a failure of the trace sink on the
  trace branch leaves it as it is too. Nothing is caught.
\<close>

theorem on_dialog_event_propagates_failures:
  "(super dc ev = (Inl e, dc') \<longrightarrow>
      on_dialog_event super send dc ev = (Inl e, dc', [])) \<and>
   (super dc ev = (Inr False, dc') \<and> name ev = ''versionChanged'' \<and>
    active_dialog dc' = Some inst \<and>
    send (trace_message ev inst) (turn dc') = (Inl e, tc) \<longrightarrow>
      result_of (on_dialog_event super send dc ev) = Inl e)"
proof (intro conjI impI)
  assume "super dc ev = (Inl e, dc')"
  then show "on_dialog_event super send dc ev = (Inl e, dc', [])"
    by (rule on_dialog_event_base_fails)
next
  assume a: "super dc ev = (Inr False, dc') \<and> name ev = ''versionChanged'' \<and>
    active_dialog dc' = Some inst \<and>
    send (trace_message ev inst) (turn dc') = (Inl e, tc)"
  then have base: "super dc ev = (Inr False, dc')" and nm: "name ev = version_changed"
    and active: "active_dialog dc' = Some inst"
    and fails: "send (trace_message ev inst) (turn dc') = (Inl e, tc)"
    by (simp_all add: version_changed_def)
  have "on_dialog_event super send dc ev =
     (case send (trace_message ev inst) (turn dc') of
        (r, tc) \<Rightarrow> (map_sum id (\<lambda>u. False) r, dc'\<lparr>turn := tc\<rparr>,
                    [Send_trace_activity (trace_message ev inst)]))"
    using base nm active by (rule on_dialog_event_trace)
  then show "result_of (on_dialog_event super send dc ev) = Inl e"
    by (simp add: result_of_def fails)
qed

theorem on_dialog_event_propagates_failures_witness:
  "on_dialog_event failing_base recording_sink (sample_context None) sample_event =
     (Inl (Failure ''base''), sample_context None, []) \<and>
   result_of (on_dialog_event declining_base failing_sink (sample_context None) sample_event) =
     Inl (Failure ''sink'')"
proof -
  have failed: "failing_base (sample_context None) sample_event =
      (Inl (Failure ''base''), sample_context None)"
    by (simp add: failing_base_def)
  have sink: "declining_base (sample_context None) sample_event = (Inr False, sample_context None) \<and>
      name sample_event = ''versionChanged'' \<and>
      active_dialog (sample_context None) = Some (sample_instance None) \<and>
      failing_sink (trace_message sample_event (sample_instance None))
        (turn (sample_context None)) = (Inl (Failure ''sink''), turn (sample_context None))"
    by (simp add: declining_base_def sample_event_name sample_active_dialog failing_sink_def)
  have first: "on_dialog_event failing_base recording_sink (sample_context None) sample_event =
     (Inl (Failure ''base''), sample_context None, [])"
    using on_dialog_event_propagates_failures [where super = failing_base
      and send = recording_sink and dc = "sample_context None" and ev = sample_event
      and e = "Failure ''base''" and dc' = "sample_context None"
      and inst = "sample_instance None" and tc = "turn (sample_context None)",
      THEN conjunct1] failed
    by (rule mp)
  have second: "result_of (on_dialog_event declining_base failing_sink (sample_context None)
      sample_event) = Inl (Failure ''sink'')"
    using on_dialog_event_propagates_failures [where super = declining_base
      and send = failing_sink and dc = "sample_context None" and ev = sample_event
      and e = "Failure ''sink''" and dc' = "sample_context None"
      and inst = "sample_instance None" and tc = "turn (sample_context None)",
      THEN conjunct2] sink
    by (rule mp)
  from first second show ?thesis ..
qed

section \<open>Lookup and fingerprint\<close>

text \<open>
  C8. \<^verbatim>\<open>find_dialog(id)\<close> returns what the dialog set's lookup returns; it is a
  function of the container's dialog set and the id alone; a dialog it returns is a
  member registered under the id, and for an id no member has it returns the not-found
  result.
\<close>

theorem find_dialog_delegates:
  "find_dialog self i = dialog_set_find_dialog (dialogs self) i \<and>
   (i \<notin> dialog_id ` set (members (dialogs self)) \<longrightarrow> find_dialog self i = None) \<and>
   (find_dialog self i = Some d \<longrightarrow> d \<in> set (members (dialogs self)) \<and> dialog_id d = i) \<and>
   (dialogs self = dialogs other \<longrightarrow> find_dialog self i = find_dialog other i)"
proof (intro conjI impI)
  show "find_dialog self i = dialog_set_find_dialog (dialogs self) i"
    by (simp add: find_dialog_def)
next
  assume "i \<notin> dialog_id ` set (members (dialogs self))"
  then have "\<not> (\<exists>d. d \<in> set (members (dialogs self)) \<and> dialog_id d = i)"
    by auto
  then show "find_dialog self i = None"
    by (simp add: find_dialog_def dialog_set_find_dialog_def find_None_iff)
next
  assume "find_dialog self i = Some d"
  then have "find (\<lambda>d. dialog_id d = i) (members (dialogs self)) = Some d"
    by (simp add: find_dialog_def dialog_set_find_dialog_def)
  then have found: "d \<in> set (members (dialogs self)) \<and> dialog_id d = i"
    by (rule find_SomeD)
  from found show "d \<in> set (members (dialogs self))" ..
  from found show "dialog_id d = i" ..
next
  assume "dialogs self = dialogs other"
  then show "find_dialog self i = find_dialog other i"
    by (simp add: find_dialog_def)
qed

theorem find_dialog_delegates_witness:
  "find_dialog \<lparr>container_id = ''root'',
      dialogs = \<lparr>members = [\<lparr>dialog_id = ''a'', dialog_version = None\<rparr>]\<rparr>\<rparr> ''missing'' = None \<and>
   dialog_set_find_dialog \<lparr>members = [\<lparr>dialog_id = ''a'', dialog_version = None\<rparr>]\<rparr> ''a'' =
     Some \<lparr>dialog_id = ''a'', dialog_version = None\<rparr> \<and>
   find_dialog \<lparr>container_id = ''root'',
      dialogs = \<lparr>members = [\<lparr>dialog_id = ''a'', dialog_version = None\<rparr>]\<rparr>\<rparr> ''a'' =
     Some \<lparr>dialog_id = ''a'', dialog_version = None\<rparr>"
proof -
  let ?a = "\<lparr>dialog_id = ''a'', dialog_version = None\<rparr>"
  let ?c = "\<lparr>container_id = ''root'', dialogs = \<lparr>members = [?a]\<rparr>\<rparr>"
  note t = find_dialog_delegates [where self = ?c and d = ?a and other = ?c]
  have absent: "''missing'' \<notin> dialog_id ` set (members (dialogs ?c))"
    by simp
  have missing: "find_dialog ?c ''missing'' = None"
    using t [where i = "''missing''", THEN conjunct2, THEN conjunct1] absent by (rule mp)
  have lookup: "dialog_set_find_dialog \<lparr>members = [?a]\<rparr> ''a'' = Some ?a"
    by (simp add: dialog_set_find_dialog_def)
  have present: "find_dialog ?c ''a'' = Some ?a"
    using t [where i = "''a''", THEN conjunct1] lookup by simp
  from missing lookup present show ?thesis by simp
qed

text \<open>
  C9. The container's \<^verbatim>\<open>get_internal_version()\<close> is the fingerprint of its dialog
  set and nothing else: two containers with the same dialog set have the same version,
  whatever their ids.
\<close>

theorem get_internal_version_delegates:
  "get_internal_version H self = dialog_set_get_internal_version H (dialogs self) \<and>
   (dialogs self = dialogs other \<longrightarrow>
      get_internal_version H self = get_internal_version H other)"
  by (simp add: get_internal_version_def)

theorem get_internal_version_delegates_witness:
  "dialogs (sample_container\<lparr>container_id := ''other''\<rparr>) = dialogs sample_container \<and>
   get_internal_version sample_fingerprint (sample_container\<lparr>container_id := ''other''\<rparr>) =
     ''a;b@2;''"
proof -
  have same: "dialogs (sample_container\<lparr>container_id := ''other''\<rparr>) = dialogs sample_container"
    by simp
  have "get_internal_version sample_fingerprint (sample_container\<lparr>container_id := ''other''\<rparr>) =
      get_internal_version sample_fingerprint sample_container"
    using get_internal_version_delegates [where H = sample_fingerprint
      and self = "sample_container\<lparr>container_id := ''other''\<rparr>" and other = sample_container,
      THEN conjunct2] same
    by (rule mp)
  with same show ?thesis
    by (simp only: sample_version)
qed

section \<open>The precondition on the stack\<close>

text \<open>
  C10. Both operations read the active dialog without a guard. On an empty stack the
  version-change check fails with an \<^verbatim>\<open>AttributeError\<close> before it writes or raises
  anything, and so does the trace branch of \<^verbatim>\<open>on_dialog_event\<close>; with an active dialog
  the check returns whenever the event emitter does.
\<close>

theorem active_dialog_required:
  "(stack dc = [] \<longrightarrow>
      active_dialog dc = None \<and>
      check_for_version_change_async H emit self dc = (Inl AttributeError, dc, [])) \<and>
   (super dc ev = (Inr False, dc') \<and> name ev = ''versionChanged'' \<and> stack dc' = [] \<longrightarrow>
      on_dialog_event super send dc ev = (Inl AttributeError, dc', [])) \<and>
   (active_dialog dc = Some inst \<and>
    (\<forall>e. fst (emit version_changed (container_id self) True False
               (set_active_version (Some (get_internal_version H self)) dc)) \<noteq> Inl e) \<longrightarrow>
      result_of (check_for_version_change_async H emit self dc) = Inr ())"
proof (intro conjI impI)
  assume "stack dc = []"
  then show none: "active_dialog dc = None"
    by (simp add: active_dialog_def)
  show "check_for_version_change_async H emit self dc = (Inl AttributeError, dc, [])"
    by (simp add: check_for_version_change_async_def none)
next
  assume a: "super dc ev = (Inr False, dc') \<and> name ev = ''versionChanged'' \<and> stack dc' = []"
  then have "super dc ev = (Inr False, dc')" and "name ev = version_changed"
    and "active_dialog dc' = None"
    by (simp_all add: version_changed_def active_dialog_def)
  then show "on_dialog_event super send dc ev = (Inl AttributeError, dc', [])"
    by (rule on_dialog_event_no_active)
next
  assume a: "active_dialog dc = Some inst \<and>
    (\<forall>e. fst (emit version_changed (container_id self) True False
               (set_active_version (Some (get_internal_version H self)) dc)) \<noteq> Inl e)"
  then have active: "active_dialog dc = Some inst" ..
  have returns: "fst (emit version_changed (container_id self) True False
               (set_active_version (Some (get_internal_version H self)) dc)) \<noteq> Inl e" for e
    using a by simp
  have res: "result_of (check_for_version_change_async H emit self dc) =
           (if truthy (version inst) \<and> version inst \<noteq> Some (get_internal_version H self)
            then map_sum id (\<lambda>h. ())
                   (fst (emit version_changed (container_id self) True False
                           (set_active_version (Some (get_internal_version H self)) dc)))
            else Inr ())"
    using active by (rule check_result)
  show "result_of (check_for_version_change_async H emit self dc) = Inr ()"
  proof (cases "fst (emit version_changed (container_id self) True False
               (set_active_version (Some (get_internal_version H self)) dc))")
    case (Inl e)
    with returns [of e] show ?thesis by simp
  next
    case (Inr r)
    show ?thesis unfolding res Inr by simp
  qed
qed

theorem active_dialog_required_witness:
  "check_for_version_change_async sample_fingerprint declining_emitter sample_container
     empty_context = (Inl AttributeError, empty_context, []) \<and>
   on_dialog_event declining_base recording_sink empty_context sample_event =
     (Inl AttributeError, empty_context, []) \<and>
   result_of (check_for_version_change_async sample_fingerprint declining_emitter
     sample_container (sample_context (Some ''old''))) = Inr ()"
proof -
  note t = active_dialog_required [where H = sample_fingerprint
        and emit = declining_emitter and self = sample_container and super = declining_base
        and ev = sample_event and dc' = empty_context and send = recording_sink]
  have empty: "stack empty_context = []"
    by (simp add: empty_context_def)
  have declined: "declining_base empty_context sample_event = (Inr False, empty_context) \<and>
      name sample_event = ''versionChanged'' \<and> stack empty_context = []"
    by (simp add: declining_base_def sample_event_name empty)
  have returns: "active_dialog (sample_context (Some ''old'')) =
        Some (sample_instance (Some ''old'')) \<and>
      (\<forall>e. fst (declining_emitter version_changed (container_id sample_container) True False
               (set_active_version (Some (get_internal_version sample_fingerprint
                  sample_container)) (sample_context (Some ''old'')))) \<noteq> Inl e)"
    by (simp add: declining_emitter_def sample_active_dialog)
  have first: "active_dialog empty_context = None \<and>
      check_for_version_change_async sample_fingerprint declining_emitter sample_container
        empty_context = (Inl AttributeError, empty_context, [])"
    using t [where dc = empty_context and inst = "sample_instance None", THEN conjunct1] empty
    by (rule mp)
  have second: "on_dialog_event declining_base recording_sink empty_context sample_event =
      (Inl AttributeError, empty_context, [])"
    using t [where dc = empty_context and inst = "sample_instance None",
        THEN conjunct2, THEN conjunct1] declined
    by (rule mp)
  have third: "result_of (check_for_version_change_async sample_fingerprint declining_emitter
      sample_container (sample_context (Some ''old''))) = Inr ()"
    using t [where dc = "sample_context (Some ''old'')"
        and inst = "sample_instance (Some ''old'')", THEN conjunct2, THEN conjunct2] returns
    by (rule mp)
  from first second third show ?thesis by simp
qed

end
